theory Spec2Isabelle
  imports Complex_Main
begin

text \<open>
  The class \<^verbatim>\<open>TelegramBotClient\<close> of \<^verbatim>\<open>pkginfobot.py\<close>: the remote call \<^verbatim>\<open>bot_api\<close> with its
  retries, the command parser \<^verbatim>\<open>parse_cmd\<close>, the polling loop \<^verbatim>\<open>serve\<close> and the method
  synthesis of \<^verbatim>\<open>__getattr__\<close>, as functions on an explicit state, with every exception
  of the Python code as a value.
\<close>

section \<open>Strings, JSON values and exceptions\<close>

text \<open>
  A Python \<^verbatim>\<open>str\<close> is a sequence of Unicode code points, so a string is modelled as a
  list of code points and not as a list of 8-bit characters: \<^verbatim>\<open>str.strip()\<close> removes
  code points well above 255. \<open>U\<close> turns an ASCII literal into such a string.
\<close>

type_synonym ustr = "nat list"

definition U :: "string \<Rightarrow> ustr" where
  "U s = map of_char s"

text \<open>
  The exceptions of the model. All of them are instances of Python's \<^verbatim>\<open>Exception\<close>
  except \<open>Interrupt\<close>, which stands for the \<^verbatim>\<open>BaseException\<close>s that
  \<^verbatim>\<open>except Exception\<close> does not catch (\<^verbatim>\<open>KeyboardInterrupt\<close>, \<^verbatim>\<open>SystemExit\<close>).
  \<open>TransportError n\<close> is any exception of the HTTP request or of the decoding of its
  answer, \<open>HandlerError n\<close> any exception of a collaborator's callback.
\<close>

datatype json =
    JNull
  | JBool bool
  | JInt int
  | JStr ustr
  | JList "json list"
  | JDict "(ustr \<times> json) list"

datatype exn =
    TransportError nat
  | HandlerError nat
  | Interrupt
  | IndexError
  | KeyError
  | TypeError
  | ValueError
  | OverflowError
  | AttributeError
  | UnboundLocalError
  | BotAPIFailed json

fun is_Exception :: "exn \<Rightarrow> bool" where
  "is_Exception Interrupt = False"
| "is_Exception _ = True"

section \<open>parse_cmd\<close>

text \<open>
  \<^verbatim>\<open>str.strip()\<close> without argument removes the code points for which CPython's
  \<^verbatim>\<open>str.isspace\<close> holds, from both ends. The non-breaking space U+00A0 is one of them.
\<close>

definition isspace :: "nat \<Rightarrow> bool" where
  "isspace c = (c \<in> set [0x09, 0x0A, 0x0B, 0x0C, 0x0D, 0x1C, 0x1D, 0x1E, 0x1F, 0x20, 0x85,
     0xA0, 0x1680, 0x2000, 0x2001, 0x2002, 0x2003, 0x2004, 0x2005, 0x2006, 0x2007, 0x2008,
     0x2009, 0x200A, 0x2028, 0x2029, 0x202F, 0x205F, 0x3000])"

definition strip :: "ustr \<Rightarrow> ustr" where
  "strip s = rev (dropWhile isspace (rev (dropWhile isspace s)))"

text \<open>\<^verbatim>\<open>s.replace(a, b)\<close> for one-character \<open>a\<close> and \<open>b\<close>.\<close>

definition replace :: "nat \<Rightarrow> nat \<Rightarrow> ustr \<Rightarrow> ustr" where
  "replace a b s = map (\<lambda>c. if c = a then b else c) s"

text \<open>
  \<^verbatim>\<open>s.split(sep, 1)\<close> and \<^verbatim>\<open>s.rsplit(sep, 1)\<close> for a one-character separator: at most
  one cut, at the first (for \<open>rsplit\<close>: the last) separator; a string without separator
  comes back whole, also the empty string, so the result has one or two elements.
\<close>

definition split1 :: "nat \<Rightarrow> ustr \<Rightarrow> ustr list" where
  "split1 sep s =
     (if sep \<in> set s
      then [takeWhile (\<lambda>c. c \<noteq> sep) s, tl (dropWhile (\<lambda>c. c \<noteq> sep) s)]
      else [s])"

definition rsplit1 :: "nat \<Rightarrow> ustr \<Rightarrow> ustr list" where
  "rsplit1 sep s =
     (if sep \<in> set s
      then [rev (tl (dropWhile (\<lambda>c. c \<noteq> sep) (rev s))), rev (takeWhile (\<lambda>c. c \<noteq> sep) (rev s))]
      else [s])"

text \<open>Python's \<^verbatim>\<open>xs[i]\<close>: a negative index counts from the end, out of range raises.\<close>

definition item :: "'a list \<Rightarrow> int \<Rightarrow> exn + 'a" where
  "item xs i =
     (if i < 0
      then (if - int (length xs) \<le> i then Inr (xs ! nat (int (length xs) + i))
            else Inl IndexError)
      else (if i < int (length xs) then Inr (xs ! nat i) else Inl IndexError))"

text \<open>
  \<^verbatim>\<open>
  def parse_cmd(self, text: str):
      t = text.strip().replace('\xa0', ' ').split(' ', 1)
      if not t:
          return None, None
      cmd = t[0].rsplit('@', 1)
      if len(cmd[0]) < 2 or cmd[0][0] != '/':
          return None, None
      if len(cmd) > 1 and cmd[-1] != self.username:
          return None, None
      expr = t[1] if len(t) > 1 else ''
      return cmd[0][1:], expr
  \<close>
  The first argument is \<^verbatim>\<open>self.username\<close>. Every subscript is an \<open>item\<close>, so that an
  \<^verbatim>\<open>IndexError\<close> would be a result \<open>Inl IndexError\<close>; \<^verbatim>\<open>or\<close> and \<^verbatim>\<open>and\<close> evaluate their
  right operand only when the left one does not decide.
\<close>

definition parse_cmd :: "ustr \<Rightarrow> ustr \<Rightarrow> exn + (ustr option \<times> ustr option)" where
  "parse_cmd uname text =
     (let t = split1 0x20 (replace 0xA0 0x20 (strip text)) in
      if t = [] then Inr (None, None)
      else case item t 0 of Inl e \<Rightarrow> Inl e | Inr t0 \<Rightarrow>
        let cmd = rsplit1 0x40 t0 in
        case item cmd 0 of Inl e \<Rightarrow> Inl e | Inr c0 \<Rightarrow>
          if length c0 < 2 then Inr (None, None)
          else case item c0 0 of Inl e \<Rightarrow> Inl e | Inr c00 \<Rightarrow>
            if c00 = 0x2F
            then case (if length cmd > 1
                       then case item cmd (- 1) of Inl e \<Rightarrow> Inl e
                            | Inr h \<Rightarrow> Inr (h = uname)
                       else Inr True) of
                   Inl e \<Rightarrow> Inl e
                 | Inr False \<Rightarrow> Inr (None, None)
                 | Inr True \<Rightarrow>
                     (case (if length t > 1 then item t 1 else Inr []) of
                        Inl e \<Rightarrow> Inl e
                      | Inr expr \<Rightarrow> Inr (Some (drop 1 c0), Some expr))
            else Inr (None, None))"


section \<open>Python operations on decoded JSON\<close>

text \<open>
  \<^verbatim>\<open>json.loads\<close> gives \<^verbatim>\<open>None\<close>, booleans, numbers, strings, lists and dicts. A dict
  keeps its keys in insertion order, so it is an association list (looked up with
  \<open>map_of\<close>, iterated in order). Numbers are the integers: the platform's identifiers
  and its retry hint are integers.
\<close>

fun truthy :: "json \<Rightarrow> bool" where
  "truthy JNull = False"
| "truthy (JBool b) = b"
| "truthy (JInt n) = (n \<noteq> 0)"
| "truthy (JStr s) = (s \<noteq> [])"
| "truthy (JList xs) = (xs \<noteq> [])"
| "truthy (JDict kvs) = (kvs \<noteq> [])"

text \<open>\<^verbatim>\<open>j[key]\<close> for a string key: only a dict has string keys.\<close>

fun getitem :: "json \<Rightarrow> ustr \<Rightarrow> exn + json" where
  "getitem (JDict kvs) k = (case map_of kvs k of None \<Rightarrow> Inl KeyError | Some v \<Rightarrow> Inr v)"
| "getitem _ k = Inl TypeError"

text \<open>\<^verbatim>\<open>j[-1]\<close>: the last element of a list, the last character of a string.\<close>

fun last_item :: "json \<Rightarrow> exn + json" where
  "last_item (JList xs) = (if xs = [] then Inl IndexError else Inr (last xs))"
| "last_item (JStr s) = (if s = [] then Inl IndexError else Inr (JStr [last s]))"
| "last_item (JDict kvs) = Inl KeyError"
| "last_item _ = Inl TypeError"

text \<open>\<^verbatim>\<open>j + 1\<close>: \<^verbatim>\<open>bool\<close> is a subclass of \<^verbatim>\<open>int\<close> in Python.\<close>

fun plus_one :: "json \<Rightarrow> exn + int" where
  "plus_one (JInt n) = Inr (n + 1)"
| "plus_one (JBool b) = Inr (if b then 2 else 1)"
| "plus_one _ = Inl TypeError"

text \<open>\<^verbatim>\<open>key in j\<close> for a string key: a key of a dict, an element of a list, a substring.\<close>

fun contains :: "json \<Rightarrow> ustr \<Rightarrow> exn + bool" where
  "contains (JDict kvs) k = Inr (k \<in> set (map fst kvs))"
| "contains (JList xs) k = Inr (JStr k \<in> set xs)"
| "contains (JStr s) k = Inr (list_ex (\<lambda>i. take (length k) (drop i s) = k) [0..<Suc (length s)])"
| "contains _ k = Inl TypeError"

text \<open>\<^verbatim>\<open>for x in j\<close>: the elements of a list, the keys of a dict, the characters of a string.\<close>

fun iterate :: "json \<Rightarrow> exn + json list" where
  "iterate (JList xs) = Inr xs"
| "iterate (JDict kvs) = Inr (map (\<lambda>kv. JStr (fst kv)) kvs)"
| "iterate (JStr s) = Inr (map (\<lambda>c. JStr [c]) s)"
| "iterate _ = Inl TypeError"

text \<open>\<^verbatim>\<open>j.items()\<close>: only a dict has the method.\<close>

fun items :: "json \<Rightarrow> exn + (ustr \<times> json) list" where
  "items (JDict kvs) = Inr kvs"
| "items _ = Inl AttributeError"

text \<open>
  The argument of \<^verbatim>\<open>time.sleep\<close>: a number that is not negative. CPython holds the
  duration as a signed 64-bit count of nanoseconds, and a number of seconds that does
  not fit raises \<^verbatim>\<open>OverflowError\<close>.
\<close>

fun sleep_arg :: "json \<Rightarrow> exn + rat" where
  "sleep_arg (JInt n) =
     (if n < 0 then Inl ValueError
      else if 2 ^ 63 - 1 < n * 10 ^ 9 then Inl OverflowError
      else Inr (of_int n))"
| "sleep_arg (JBool b) = Inr (if b then 1 else 0)"
| "sleep_arg _ = Inl TypeError"

section \<open>The client, its environment and the effects it has\<close>

text \<open>
  \<open>world\<close> is what a callback can reach: the fields of the client object and the remote
  service, of which the model keeps the number of HTTP requests answered so far. The
  service itself is a \<open>net\<close>: the outcome of the n-th request, either an exception of the
  request or of the decoding, or the decoded JSON. The \<open>event\<close>s are the effects of the
  client's own code, in order: requests, sleeps, log entries and callback invocations.
\<close>

record world =
  token :: ustr
  username :: ustr
  offset :: "int option"
  run :: bool
  posts :: nat

datatype reply = Fails exn | Decoded json

datatype event =
    Post ustr "(ustr \<times> json) list"
  | Sleep rat
  | Log
  | Invoke ustr json

type_synonym net = "nat \<Rightarrow> reply"
type_synonym state = "world \<times> event list"
type_synonym callback = "json \<Rightarrow> world \<Rightarrow> exn option \<times> world"
type_synonym kwargs = "ustr \<Rightarrow> callback option"

definition sleep :: "rat \<Rightarrow> state \<Rightarrow> state" where
  "sleep d s = (fst s, snd s @ [Sleep d])"

definition logging_exception :: "state \<Rightarrow> state" where
  "logging_exception s = (fst s, snd s @ [Log])"

definition set_offset :: "int \<Rightarrow> state \<Rightarrow> state" where
  "set_offset n s = ((fst s)\<lparr>offset := Some n\<rparr>, snd s)"

text \<open>\<^verbatim>\<open>HSession.post(...)\<close> followed by the decoding of the answer.\<close>

definition post :: "net \<Rightarrow> ustr \<Rightarrow> (ustr \<times> json) list \<Rightarrow> state \<Rightarrow> reply \<times> state" where
  "post net method params s =
     (net (posts (fst s)),
      ((fst s)\<lparr>posts := Suc (posts (fst s))\<rparr>, snd s @ [Post method params]))"

section \<open>bot_api\<close>

text \<open>
  \<^verbatim>\<open>
  def bot_api(self, method, **params):
      for att in range(3):
          try:
              req = HSession.post(('https://api.telegram.org/bot%s/' %
                                  self.token) + method, data=params, timeout=45)
              retjson = req.content
              ret = json.loads(retjson.decode('utf-8'))
              break
          except Exception as ex:
              if att < 1:
                  time.sleep((att + 1) * 2)
              else:
                  raise ex
      if not ret['ok']:
          raise BotAPIFailed(ret)
      return ret['result']
  \<close>
  \<open>attempts\<close> is the \<^verbatim>\<open>for\<close> loop over the values of \<^verbatim>\<open>att\<close> still to come; it ends
  with the binding of \<^verbatim>\<open>ret\<close> (\<open>None\<close>: never assigned) or with an exception.
\<close>

fun attempts :: "net \<Rightarrow> ustr \<Rightarrow> (ustr \<times> json) list \<Rightarrow> nat list \<Rightarrow> state
    \<Rightarrow> (exn + json option) \<times> state" where
  "attempts net method params [] s = (Inr None, s)"
| "attempts net method params (att # atts) s =
     (case post net method params s of
        (Decoded ret, s') \<Rightarrow> (Inr (Some ret), s')
      | (Fails ex, s') \<Rightarrow>
          if is_Exception ex
          then (if att < 1
                then attempts net method params atts (sleep (of_nat ((att + 1) * 2)) s')
                else (Inl ex, s'))
          else (Inl ex, s'))"

text \<open>
  \<^verbatim>\<open>
  class BotAPIFailed(Exception):
      def __init__(self, ret):
          self.ret = ret
          self.description = ret['description']
          self.error_code = ret['error_code']
          self.parameters = ret.get('parameters')
  \<close>
  \<open>raise_BotAPIFailed ret\<close> is what \<^verbatim>\<open>raise BotAPIFailed(ret)\<close> raises: a \<^verbatim>\<open>KeyError\<close> of the
  constructor, or the new exception. \<open>parameters\<close> is the attribute of that name, with
  \<open>JNull\<close> for \<^verbatim>\<open>None\<close>.
\<close>

definition raise_BotAPIFailed :: "json \<Rightarrow> exn" where
  "raise_BotAPIFailed ret =
     (case getitem ret (U ''description'') of
        Inl e \<Rightarrow> e
      | Inr d \<Rightarrow> (case getitem ret (U ''error_code'') of
                    Inl e \<Rightarrow> e
                  | Inr c \<Rightarrow> BotAPIFailed ret))"

fun parameters :: "json \<Rightarrow> json" where
  "parameters (JDict kvs) = (case map_of kvs (U ''parameters'') of None \<Rightarrow> JNull | Some v \<Rightarrow> v)"
| "parameters _ = JNull"

definition envelope :: "json \<Rightarrow> exn + json" where
  "envelope ret =
     (case getitem ret (U ''ok'') of
        Inl e \<Rightarrow> Inl e
      | Inr ok \<Rightarrow> if truthy ok then getitem ret (U ''result'')
                  else Inl (raise_BotAPIFailed ret))"

definition bot_api :: "net \<Rightarrow> ustr \<Rightarrow> (ustr \<times> json) list \<Rightarrow> state \<Rightarrow> (exn + json) \<times> state" where
  "bot_api net method params s =
     (case attempts net method params [0, 1, 2] s of
        (Inl ex, s') \<Rightarrow> (Inl ex, s')
      | (Inr None, s') \<Rightarrow> (Inl UnboundLocalError, s')
      | (Inr (Some ret), s') \<Rightarrow> (envelope ret, s'))"

text \<open>
  \<^verbatim>\<open>
  def __getattr__(self, name):
      return lambda **kwargs: self.bot_api(name, **kwargs)
  \<close>
  Python calls \<^verbatim>\<open>__getattr__\<close> for every attribute name that the object and its class do
  not define; the class defines \<^verbatim>\<open>bot_api\<close>, \<^verbatim>\<open>parse_cmd\<close> and \<^verbatim>\<open>serve\<close>, the object
  \<^verbatim>\<open>token\<close>, \<^verbatim>\<open>username\<close>, \<^verbatim>\<open>config\<close>, \<^verbatim>\<open>offset\<close> and \<^verbatim>\<open>run\<close>. So
  \<^verbatim>\<open>client.sendMessage(...)\<close> and \<^verbatim>\<open>client.requestStop()\<close> are \<open>getattr_call\<close>s.
\<close>

definition getattr_call :: "net \<Rightarrow> ustr \<Rightarrow> (ustr \<times> json) list \<Rightarrow> state \<Rightarrow> (exn + json) \<times> state" where
  "getattr_call net name params s = bot_api net name params s"

section \<open>serve\<close>

text \<open>
  \<^verbatim>\<open>
  def serve(self, **kwargs):
      while self.run:
          try:
              updates = self.bot_api('getUpdates', offset=self.offset, timeout=30)
          except BotAPIFailed as ex:
              if ex.parameters and 'retry_after' in ex.parameters:
                  time.sleep(ex.parameters['retry_after'])
          except Exception:
              logging.exception('Get updates failed.')
              continue
          if not updates:
              continue
          self.offset = updates[-1]["update_id"] + 1
          for upd in updates:
              for k, v in upd.items():
                  if k == 'update_id':
                      continue
                  elif kwargs.get(k):
                      kwargs[k](self, v)
          time.sleep(.2)
  \<close>
  \<^verbatim>\<open>updates\<close> is a local variable of \<^verbatim>\<open>serve\<close>: it is unbound until the first fetch
  returns (\<open>None\<close> in the model) and keeps its value from one iteration to the next.
\<close>

definition fetch_params :: "world \<Rightarrow> (ustr \<times> json) list" where
  "fetch_params w =
     [(U ''offset'', (case offset w of None \<Rightarrow> JNull | Some n \<Rightarrow> JInt n)),
      (U ''timeout'', JInt 30)]"

text \<open>The body of \<^verbatim>\<open>except BotAPIFailed as ex\<close>; an exception raised in it leaves \<^verbatim>\<open>serve\<close>.\<close>

definition retry_pause :: "json \<Rightarrow> state \<Rightarrow> exn option \<times> state" where
  "retry_pause ret s =
     (if truthy (parameters ret)
      then (case contains (parameters ret) (U ''retry_after'') of
              Inl e \<Rightarrow> (Some e, s)
            | Inr False \<Rightarrow> (None, s)
            | Inr True \<Rightarrow>
                (case getitem (parameters ret) (U ''retry_after'') of
                   Inl e \<Rightarrow> (Some e, s)
                 | Inr v \<Rightarrow> (case sleep_arg v of
                               Inl e \<Rightarrow> (Some e, s)
                             | Inr d \<Rightarrow> (None, sleep d s))))
      else (None, s))"

text \<open>\<^verbatim>\<open>updates[-1]["update_id"] + 1\<close>\<close>

definition next_offset :: "json \<Rightarrow> exn + int" where
  "next_offset updates =
     (case last_item updates of
        Inl e \<Rightarrow> Inl e
      | Inr upd \<Rightarrow> (case getitem upd (U ''update_id'') of
                      Inl e \<Rightarrow> Inl e
                    | Inr i \<Rightarrow> plus_one i))"

text \<open>The inner loop, over the fields of one update, and the outer loop, over the updates.\<close>

fun dispatch_items :: "kwargs \<Rightarrow> (ustr \<times> json) list \<Rightarrow> state \<Rightarrow> exn option \<times> state" where
  "dispatch_items kw [] s = (None, s)"
| "dispatch_items kw ((k, v) # kvs) s =
     (if k = U ''update_id'' then dispatch_items kw kvs s
      else case kw k of
             None \<Rightarrow> dispatch_items kw kvs s
           | Some cb \<Rightarrow>
               (case cb v (fst s) of
                  (Some e, w') \<Rightarrow> (Some e, (w', snd s @ [Invoke k v]))
                | (None, w') \<Rightarrow> dispatch_items kw kvs (w', snd s @ [Invoke k v])))"

fun dispatch :: "kwargs \<Rightarrow> json list \<Rightarrow> state \<Rightarrow> exn option \<times> state" where
  "dispatch kw [] s = (None, s)"
| "dispatch kw (upd # upds) s =
     (case items upd of
        Inl e \<Rightarrow> (Some e, s)
      | Inr kvs \<Rightarrow> (case dispatch_items kw kvs s of
                      (Some e, s') \<Rightarrow> (Some e, s')
                    | (None, s') \<Rightarrow> dispatch kw upds s'))"

text \<open>
  The loop body from \<^verbatim>\<open>if not updates:\<close> on, given the binding of \<^verbatim>\<open>updates\<close>. The result is
  the exception that leaves \<^verbatim>\<open>serve\<close>, or \<open>None\<close> when the body ends or continues.
\<close>

definition process :: "kwargs \<Rightarrow> json option \<Rightarrow> state \<Rightarrow> exn option \<times> state" where
  "process kw updates s =
     (case updates of
        None \<Rightarrow> (Some UnboundLocalError, s)
      | Some ups \<Rightarrow>
          if truthy ups
          then (case next_offset ups of
                  Inl e \<Rightarrow> (Some e, s)
                | Inr n \<Rightarrow>
                    (case iterate ups of
                       Inl e \<Rightarrow> (Some e, set_offset n s)
                     | Inr us \<Rightarrow>
                         (case dispatch kw us (set_offset n s) of
                            (Some e, s') \<Rightarrow> (Some e, s')
                          | (None, s') \<Rightarrow> (None, sleep (1 / 5) s'))))
          else (None, s))"

text \<open>One iteration of the \<^verbatim>\<open>while\<close> loop: the outcome, the binding of \<^verbatim>\<open>updates\<close>, the state.\<close>

definition serve_iter :: "net \<Rightarrow> kwargs \<Rightarrow> json option \<Rightarrow> state
    \<Rightarrow> exn option \<times> json option \<times> state" where
  "serve_iter net kw updates s =
     (case bot_api net (U ''getUpdates'') (fetch_params (fst s)) s of
        (Inr ups, s1) \<Rightarrow>
          (case process kw (Some ups) s1 of (r, s2) \<Rightarrow> (r, Some ups, s2))
      | (Inl (BotAPIFailed ret), s1) \<Rightarrow>
          (case retry_pause ret s1 of
             (Some e, s2) \<Rightarrow> (Some e, updates, s2)
           | (None, s2) \<Rightarrow> (case process kw updates s2 of (r, s3) \<Rightarrow> (r, updates, s3)))
      | (Inl ex, s1) \<Rightarrow>
          if is_Exception ex then (None, updates, logging_exception s1)
          else (Some ex, updates, s1))"

text \<open>
  The \<^verbatim>\<open>while\<close> loop may run forever, so it gets fuel: the number of iterations it may
  still start. \<open>Running\<close> is the loop cut short by the fuel, \<open>Returned\<close> the normal return
  of \<^verbatim>\<open>serve\<close>, \<open>Raised e\<close> an exception leaving it.
\<close>

datatype outcome = Returned | Raised exn | Running

fun serve_loop :: "net \<Rightarrow> kwargs \<Rightarrow> nat \<Rightarrow> json option \<Rightarrow> state \<Rightarrow> outcome \<times> state" where
  "serve_loop net kw 0 updates s = (if run (fst s) then (Running, s) else (Returned, s))"
| "serve_loop net kw (Suc fuel) updates s =
     (if run (fst s)
      then (case serve_iter net kw updates s of
              (Some e, updates', s') \<Rightarrow> (Raised e, s')
            | (None, updates', s') \<Rightarrow> serve_loop net kw fuel updates' s')
      else (Returned, s))"

definition serve :: "net \<Rightarrow> kwargs \<Rightarrow> nat \<Rightarrow> state \<Rightarrow> outcome \<times> state" where
  "serve net kw fuel s = serve_loop net kw fuel None s"

section \<open>Assumptions on collaborators, and example inputs\<close>

text \<open>
  A callback is any function on the \<open>world\<close>, so it could assign the cursor. The
  collaborators the client is written for do not: \<open>keeps_offset\<close> says that no registered
  callback changes \<^verbatim>\<open>self.offset\<close>.
\<close>

definition keeps_offset :: "kwargs \<Rightarrow> bool" where
  "keeps_offset kw = (\<forall>k cb v w. kw k = Some cb \<longrightarrow> offset (snd (cb v w)) = offset w)"


text \<open>A client as \<^verbatim>\<open>__init__\<close> leaves it, two envelopes of the service, three callbacks.\<close>

definition client0 :: world where
  "client0 = \<lparr>token = U ''123:abc'', username = U ''pkgbot'', offset = None, run = True,
     posts = 0\<rparr>"

definition too_many_requests :: json where
  "too_many_requests =
     JDict [(U ''ok'', JBool False),
            (U ''error_code'', JInt 429),
            (U ''description'', JStr (U ''Too Many Requests: retry after 5'')),
            (U ''parameters'', JDict [(U ''retry_after'', JInt 5)])]"

definition success :: "json \<Rightarrow> json" where
  "success result = JDict [(U ''ok'', JBool True), (U ''result'', result)]"

definition update :: "int \<Rightarrow> ustr \<Rightarrow> json \<Rightarrow> json" where
  "update i kind payload = JDict [(U ''update_id'', JInt i), (kind, payload)]"

definition quiet :: callback where
  "quiet v w = (None, w)"

definition failing :: callback where
  "failing v w = (Some (HandlerError 0), w)"

definition stopping :: callback where
  "stopping v w = (None, w\<lparr>run := False\<rparr>)"

text \<open>Registrations of callbacks.\<close>

definition no_callbacks :: kwargs where
  "no_callbacks k = None"

definition on_message :: "callback \<Rightarrow> kwargs" where
  "on_message cb k = (if k = U ''message'' then Some cb else None)"

definition watch_id :: kwargs where
  "watch_id k = (if k = U ''message'' then Some quiet
                 else if k = U ''update_id'' then Some failing else None)"

text \<open>
  Remote services. \<open>flaky\<close> fails its first two requests and would answer the third,
  \<open>limited\<close> always asks to retry later, \<open>batch_then_limited\<close> delivers one update first,
  \<open>acknowledging\<close> answers every call with \<^verbatim>\<open>true\<close>, \<open>idle\<close> has no updates. The others
  always deliver one batch, in ascending order of identifiers: \<open>stop_request\<close>,
  \<open>two_messages\<close> and \<open>annotated\<close>.
\<close>

definition flaky :: net where
  "flaky n = (if n < 2 then Fails (TransportError n) else Decoded (success JNull))"

definition limited :: net where
  "limited n = Decoded too_many_requests"

definition batch_then_limited :: net where
  "batch_then_limited n =
     (if n = 0 then Decoded (success (JList [update 5 (U ''message'') (JStr (U ''hi''))]))
      else Decoded too_many_requests)"

definition acknowledging :: net where
  "acknowledging n = Decoded (success (JBool True))"

definition idle :: net where
  "idle n = Decoded (success (JList []))"

definition stop_request :: net where
  "stop_request n = Decoded (success (JList [update 5 (U ''message'') (JStr (U ''stop''))]))"

definition two_messages :: net where
  "two_messages n =
     Decoded (success (JList [update 5 (U ''message'') (JStr (U ''one'')),
                              update 7 (U ''message'') (JStr (U ''two''))]))"

definition annotated :: net where
  "annotated n =
     Decoded (success (JList
       [JDict [(U ''update_id'', JInt 5), (U ''message'', JStr (U ''one'')),
               (U ''edited_message'', JNull)],
        JDict [(U ''update_id'', JInt 7), (U ''message'', JStr (U ''two''))]]))"

section \<open>Properties of parse_cmd\<close>

subsection \<open>Cutting at a separator\<close>

lemma takeWhile_upto: "sep \<notin> set h \<Longrightarrow> takeWhile (\<lambda>c. c \<noteq> sep) (h @ sep # r) = h"
  by (induction h) auto

lemma dropWhile_upto: "sep \<notin> set h \<Longrightarrow> dropWhile (\<lambda>c. c \<noteq> sep) (h @ sep # r) = sep # r"
  by (induction h) auto

lemma split1_at: "sep \<notin> set h \<Longrightarrow> split1 sep (h @ sep # r) = [h, r]"
  by (simp add: split1_def takeWhile_upto dropWhile_upto)

lemma split1_none: "sep \<notin> set s \<Longrightarrow> split1 sep s = [s]"
  by (simp add: split1_def)

lemma rsplit1_at: "sep \<notin> set h \<Longrightarrow> rsplit1 sep (p @ sep # h) = [p, h]"
  using takeWhile_upto [of sep "rev h" "rev p"] dropWhile_upto [of sep "rev h" "rev p"]
  by (simp add: rsplit1_def)

lemma rsplit1_none: "sep \<notin> set s \<Longrightarrow> rsplit1 sep s = [s]"
  by (simp add: rsplit1_def)

lemma item_0_len: "\<not> length xs < 2 \<Longrightarrow> item xs 0 = Inr (hd xs)"
  by (cases xs) (simp_all add: item_def)

lemma item_pair [simp]: "item [a, b] 0 = Inr a" "item [a, b] 1 = Inr b" "item [a, b] (- 1) = Inr b"
  "item [a] 0 = Inr a" "item [a] (-1) = Inr a"
  by (simp_all add: item_def)


lemma parse_cmd_plain_rest:
  assumes "replace 0xA0 0x20 (strip text) = h @ 0x20 # r" "0x20 \<notin> set h" "0x40 \<notin> set h"
  shows "parse_cmd uname text =
           (if length h < 2 then Inr (None, None)
            else if hd h = 0x2F then Inr (Some (tl h), Some r) else Inr (None, None))"
  using assms
  by (auto simp add: parse_cmd_def Let_def split1_at rsplit1_none item_0_len drop_Suc)

lemma parse_cmd_plain_only:
  assumes "replace 0xA0 0x20 (strip text) = h" "0x20 \<notin> set h" "0x40 \<notin> set h"
  shows "parse_cmd uname text =
           (if length h < 2 then Inr (None, None)
            else if hd h = 0x2F then Inr (Some (tl h), Some []) else Inr (None, None))"
  using assms
  by (auto simp add: parse_cmd_def Let_def split1_none rsplit1_none item_0_len drop_Suc)

lemma parse_cmd_at_rest:
  assumes "replace 0xA0 0x20 (strip text) = (p @ 0x40 # a) @ 0x20 # r"
    "0x20 \<notin> set (p @ 0x40 # a)" "0x40 \<notin> set a"
  shows "parse_cmd uname text =
           (if length p < 2 then Inr (None, None)
            else if hd p = 0x2F
              then (if a = uname then Inr (Some (tl p), Some r) else Inr (None, None))
              else Inr (None, None))"
  using assms split1_at [of "0x20" "p @ 0x40 # a" r]
  by (auto simp add: parse_cmd_def Let_def rsplit1_at item_0_len drop_Suc)

lemma parse_cmd_at_only:
  assumes "replace 0xA0 0x20 (strip text) = p @ 0x40 # a"
    "0x20 \<notin> set (p @ 0x40 # a)" "0x40 \<notin> set a"
  shows "parse_cmd uname text =
           (if length p < 2 then Inr (None, None)
            else if hd p = 0x2F
              then (if a = uname then Inr (Some (tl p), Some []) else Inr (None, None))
              else Inr (None, None))"
  using assms
  by (auto simp add: parse_cmd_def Let_def split1_none rsplit1_at item_0_len drop_Suc)

lemma strip_starts_nonspace: "strip s = c # r \<Longrightarrow> \<not> isspace c"
proof -
  assume a: "strip s = c # r"
  define d where "d = dropWhile isspace s"
  show ?thesis
  proof (cases d)
    case Nil
    then have "strip s = []" by (simp add: strip_def d_def [symmetric])
    with a show ?thesis by simp
  next
    case (Cons x xs)
    then have nx: "\<not> isspace x"
      using hd_dropWhile [of isspace s] by (simp add: d_def)
    have "dropWhile isspace (rev xs @ [x]) = dropWhile isspace (rev xs) @ [x]"
      using nx by (simp add: dropWhile_append)
    then have "strip s = x # rev (dropWhile isspace (rev xs))"
      using Cons by (simp add: strip_def d_def [symmetric])
    with a nx show ?thesis by simp
  qed
qed

lemma hd_replace_strip: "strip text = c # r \<Longrightarrow> \<exists>r'. replace 0xA0 0x20 (strip text) = c # r'"
  using strip_starts_nonspace [of "text" c r] by (auto simp add: replace_def isspace_def)


lemma takeWhile_whole: "sep \<notin> set s \<Longrightarrow> takeWhile (\<lambda>c. c \<noteq> sep) s = s"
  by (induction s) auto

text \<open>parse_cmd in terms of the head token and the remainder of the normalised text\<close>

lemma parse_cmd_plain:
  fixes uname msgtext :: ustr
  defines "s \<equiv> replace 0xA0 0x20 (strip msgtext)"
  defines "head \<equiv> takeWhile (\<lambda>c. c \<noteq> 0x20) s"
  assumes "0x40 \<notin> set head"
  shows "parse_cmd uname msgtext =
           (if length head < 2 then Inr (None, None)
            else if hd head = 0x2F then Inr (Some (tl head), Some (drop (Suc (length head)) s))
            else Inr (None, None))"
proof (cases "0x20 \<in> set s")
  case True
  then obtain h r where hr: "s = h @ 0x20 # r" "0x20 \<notin> set h"
    by (meson split_list_first)
  then have "head = h" by (simp add: head_def takeWhile_upto)
  with hr assms show ?thesis
    using parse_cmd_plain_rest [of msgtext h r uname] by simp
next
  case False
  then have "head = s" by (simp add: head_def takeWhile_whole)
  with False assms show ?thesis
    using parse_cmd_plain_only [of msgtext s uname] by simp
qed

lemma parse_cmd_at:
  fixes uname msgtext :: ustr
  defines "s \<equiv> replace 0xA0 0x20 (strip msgtext)"
  defines "head \<equiv> takeWhile (\<lambda>c. c \<noteq> 0x20) s"
  assumes "head = p @ 0x40 # a" "0x40 \<notin> set a"
  shows "parse_cmd uname msgtext =
           (if length p < 2 then Inr (None, None)
            else if hd p = 0x2F
              then (if a = uname then Inr (Some (tl p), Some (drop (Suc (length head)) s))
                    else Inr (None, None))
              else Inr (None, None))"
proof (cases "0x20 \<in> set s")
  case True
  then obtain h r where hr: "s = h @ 0x20 # r" "0x20 \<notin> set h"
    by (meson split_list_first)
  then have "head = h" by (simp add: head_def takeWhile_upto)
  with hr assms show ?thesis
    using parse_cmd_at_rest [of msgtext p a r uname] by simp
next
  case False
  then have "head = s" by (simp add: head_def takeWhile_whole)
  with False assms show ?thesis
    using parse_cmd_at_only [of msgtext p a uname] by simp
qed

lemma parse_cmd_returns: "\<exists>r. parse_cmd uname msgtext = Inr r"
proof (cases "0x40 \<in> set (takeWhile (\<lambda>c. c \<noteq> 0x20) (replace 0xA0 0x20 (strip msgtext)))")
  case True
  then obtain p a where "takeWhile (\<lambda>c. c \<noteq> 0x20) (replace 0xA0 0x20 (strip msgtext)) = p @ 0x40 # a" "0x40 \<notin> set a"
    by (meson split_list_last)
  then show ?thesis using parse_cmd_at [of msgtext p a uname] by simp
next
  case False
  then show ?thesis using parse_cmd_plain [of msgtext uname] by simp
qed

lemma parse_cmd_no_marker:
  assumes "\<not> (\<exists>r. strip msgtext = 0x2F # r)"
  shows "parse_cmd uname msgtext = Inr (None, None)"
proof -
  let ?s = "replace 0xA0 0x20 (strip msgtext)"
  let ?head = "takeWhile (\<lambda>c. c \<noteq> 0x20) ?s"
  have start: "?head = [] \<or> hd ?head \<noteq> 0x2F"
  proof (cases "strip msgtext")
    case Nil
    then show ?thesis by (simp add: replace_def)
  next
    case (Cons c r)
    with assms have "c \<noteq> 0x2F" by simp
    moreover obtain r' where "?s = c # r'" using hd_replace_strip [OF Cons] by blast
    ultimately show ?thesis by simp
  qed
  show ?thesis
  proof (cases "0x40 \<in> set ?head")
    case True
    then obtain p a where pa: "?head = p @ 0x40 # a" "0x40 \<notin> set a"
      by (meson split_list_last)
    with start have "length p < 2 \<or> hd p \<noteq> 0x2F"
      by (cases p) auto
    then show ?thesis using parse_cmd_at [OF pa, of uname] by auto
  next
    case False
    then show ?thesis using parse_cmd_plain [OF False, of uname] start by auto
  qed
qed



subsection \<open>Well-formed commands\<close>

text \<open>
  The text \<^verbatim>\<open>/a b\<close>, a non-breaking space, \<^verbatim>\<open>c\<close> has the form \<^verbatim>\<open>/<verb> <rest>\<close> and nothing
  to trim, and the substring after its first space is \<^verbatim>\<open>b\<close>, the non-breaking space,
  \<^verbatim>\<open>c\<close>. \<^verbatim>\<open>parse_cmd\<close> returns \<^verbatim>\<open>b c\<close> with a regular space instead: the remainder is
  altered by more than the trimming.
\<close>

theorem parse_cmd_nbsp_counterexample:
  "parse_cmd (U ''bot'') (U ''/a b'' @ [0xA0] @ U ''c'') = Inr (Some (U ''a''), Some (U ''b c''))
   \<and> strip (U ''/a b'' @ [0xA0] @ U ''c'') = U ''/a '' @ (U ''b'' @ [0xA0] @ U ''c'')
   \<and> parse_cmd (U ''bot'') (U ''/a b'' @ [0xA0] @ U ''c'')
       \<noteq> Inr (Some (U ''a''), Some (U ''b'' @ [0xA0] @ U ''c''))"
  by (simp add: parse_cmd_def U_def split1_def rsplit1_def replace_def strip_def isspace_def item_def)

text \<open>
  C5, as amended. Let the text, trimmed and with every non-breaking space replaced by a
  regular space, be a head token, a space and a rest, where the head token holds no space
  and is the marker \<^verbatim>\<open>/\<close> and a non-empty verb, either without any \<^verbatim>\<open>@\<close> or followed by
  \<^verbatim>\<open>@\<close> and the client's own handle. Then \<^verbatim>\<open>parse_cmd\<close> returns the verb and exactly
  that rest: the substring after the first space of the trimmed and normalised text. When
  the trimmed text holds no non-breaking space, it is itself that head token, a space and
  that rest, so that the rest is the substring after the first space of the trimmed text.
\<close>

theorem parse_cmd_valid:
  assumes "replace 0xA0 0x20 (strip msgtext) = head @ 0x20 # rest"
    and "0x20 \<notin> set head"
    and "verb \<noteq> []"
    and "head = 0x2F # verb \<and> 0x40 \<notin> set verb
         \<or> head = 0x2F # verb @ 0x40 # uname \<and> 0x40 \<notin> set uname"
  shows "parse_cmd uname msgtext = Inr (Some verb, Some rest)
    \<and> (0xA0 \<notin> set (strip msgtext) \<longrightarrow> strip msgtext = head @ 0x20 # rest)"
proof -
  have th: "takeWhile (\<lambda>c. c \<noteq> 0x20) (replace 0xA0 0x20 (strip msgtext)) = head"
    using assms(1,2) by (simp add: takeWhile_upto)
  have rem: "drop (Suc (length head)) (replace 0xA0 0x20 (strip msgtext)) = rest"
    using assms(1) by simp
  have same: "0xA0 \<notin> set (strip msgtext) \<longrightarrow> strip msgtext = head @ 0x20 # rest"
  proof
    assume "0xA0 \<notin> set (strip msgtext)"
    then have "replace 0xA0 0x20 (strip msgtext) = strip msgtext"
      unfolding replace_def by (intro map_idI) auto
    with assms(1) show "strip msgtext = head @ 0x20 # rest" by simp
  qed
  from assms(4) have "parse_cmd uname msgtext = Inr (Some verb, Some rest)"
  proof
    assume a: "head = 0x2F # verb \<and> 0x40 \<notin> set verb"
    then have "0x40 \<notin> set (takeWhile (\<lambda>c. c \<noteq> 0x20) (replace 0xA0 0x20 (strip msgtext)))"
      using th by simp
    from parse_cmd_plain [OF this, of uname, unfolded th rem] a assms(3) show ?thesis
      by (cases verb) simp_all
  next
    assume a: "head = 0x2F # verb @ 0x40 # uname \<and> 0x40 \<notin> set uname"
    then have "takeWhile (\<lambda>c. c \<noteq> 0x20) (replace 0xA0 0x20 (strip msgtext)) = (0x2F # verb) @ 0x40 # uname"
      using th by simp
    from parse_cmd_at [OF this, of uname, unfolded th rem] a assms(3) show ?thesis
      by (cases verb) simp_all
  qed
  with same show ?thesis by simp
qed

theorem parse_cmd_valid_witness:
  "replace 0xA0 0x20 (strip (U '' /pkgver gcc 12 '')) = U ''/pkgver'' @ 0x20 # U ''gcc 12''
   \<and> 0x20 \<notin> set (U ''/pkgver'') \<and> U ''pkgver'' \<noteq> []
   \<and> U ''/pkgver'' = 0x2F # U ''pkgver'' \<and> 0x40 \<notin> set (U ''pkgver'')
   \<and> parse_cmd (U ''bot'') (U '' /pkgver gcc 12 '') = Inr (Some (U ''pkgver''), Some (U ''gcc 12''))
   \<and> 0xA0 \<notin> set (strip (U '' /pkgver gcc 12 ''))
   \<and> strip (U '' /pkgver gcc 12 '') = U ''/pkgver'' @ 0x20 # U ''gcc 12''"
  using parse_cmd_valid [of "U '' /pkgver gcc 12 ''" "U ''/pkgver''" "U ''gcc 12''" "U ''pkgver''" "U ''bot''"]
  by (simp add: U_def strip_def isspace_def replace_def)

subsection \<open>Handle suffixes\<close>

text \<open>
  C6. Let the head token (the trimmed, normalised text up to its first space) be
  \<^verbatim>\<open>/<verb>@<handle>\<close>, the handle being what follows the last \<^verbatim>\<open>@\<close>. If the handle
  differs from the client's own, \<^verbatim>\<open>parse_cmd\<close> returns \<^verbatim>\<open>(None, None)\<close>; if it is the
  client's own and the verb is not empty, \<^verbatim>\<open>parse_cmd\<close> returns the verb and the
  remainder, which is the normalised text after the head token and its space.
\<close>

theorem parse_cmd_handle:
  assumes "takeWhile (\<lambda>c. c \<noteq> 0x20) (replace 0xA0 0x20 (strip msgtext)) = 0x2F # verb @ 0x40 # handle"
    and "0x40 \<notin> set handle"
  shows "(handle \<noteq> uname \<longrightarrow> parse_cmd uname msgtext = Inr (None, None)) \<and>
         (handle = uname \<and> verb \<noteq> [] \<longrightarrow>
            parse_cmd uname msgtext =
              Inr (Some verb,
                   Some (drop (length verb + length handle + 3) (replace 0xA0 0x20 (strip msgtext)))))"
proof -
  have hd: "takeWhile (\<lambda>c. c \<noteq> 0x20) (replace 0xA0 0x20 (strip msgtext)) = (0x2F # verb) @ 0x40 # handle"
    using assms(1) by simp
  have len: "Suc (length ((0x2F # verb) @ 0x40 # handle)) = length verb + length handle + 3"
    by simp
  from parse_cmd_at [OF hd assms(2), of uname, unfolded hd len] show ?thesis
    by (cases verb) simp_all
qed

theorem parse_cmd_handle_witness:
  "takeWhile (\<lambda>c. c \<noteq> 0x20) (replace 0xA0 0x20 (strip (U ''/search@pkgbot vim'')))
     = 0x2F # U ''search'' @ 0x40 # U ''pkgbot''
   \<and> 0x40 \<notin> set (U ''pkgbot'')
   \<and> parse_cmd (U ''otherbot'') (U ''/search@pkgbot vim'') = Inr (None, None)
   \<and> parse_cmd (U ''pkgbot'') (U ''/search@pkgbot vim'') = Inr (Some (U ''search''), Some (U ''vim''))"
  using parse_cmd_handle [of "U ''/search@pkgbot vim''" "U ''search''" "U ''pkgbot''" "U ''otherbot''"]
    parse_cmd_handle [of "U ''/search@pkgbot vim''" "U ''search''" "U ''pkgbot''" "U ''pkgbot''"]
  by (simp add: U_def strip_def isspace_def replace_def)

subsection \<open>Texts that are not commands\<close>

text \<open>
  C7. \<^verbatim>\<open>parse_cmd\<close> returns on every string: no subscript of it is out of range. It
  returns \<^verbatim>\<open>(None, None)\<close> for the empty text, for a text that after trimming does not
  start with the marker \<^verbatim>\<open>/\<close>, for a head token that is the marker alone or the marker
  followed at once by \<^verbatim>\<open>@\<close> and a handle (no verb), and for a head token whose part after
  the last \<^verbatim>\<open>@\<close> is not the client's handle.
\<close>

theorem parse_cmd_total:
  "(\<exists>r. parse_cmd uname msgtext = Inr r) \<and>
   (msgtext = [] \<longrightarrow> parse_cmd uname msgtext = Inr (None, None)) \<and>
   (\<not> (\<exists>r. strip msgtext = 0x2F # r) \<longrightarrow> parse_cmd uname msgtext = Inr (None, None)) \<and>
   (takeWhile (\<lambda>c. c \<noteq> 0x20) (replace 0xA0 0x20 (strip msgtext)) = [0x2F] \<longrightarrow>
      parse_cmd uname msgtext = Inr (None, None)) \<and>
   (takeWhile (\<lambda>c. c \<noteq> 0x20) (replace 0xA0 0x20 (strip msgtext)) = 0x2F # 0x40 # a \<and> 0x40 \<notin> set a \<longrightarrow>
      parse_cmd uname msgtext = Inr (None, None)) \<and>
   (takeWhile (\<lambda>c. c \<noteq> 0x20) (replace 0xA0 0x20 (strip msgtext)) = p @ 0x40 # h \<and> 0x40 \<notin> set h \<and> h \<noteq> uname \<longrightarrow>
      parse_cmd uname msgtext = Inr (None, None))"
proof -
  let ?head = "takeWhile (\<lambda>c. c \<noteq> 0x20) (replace 0xA0 0x20 (strip msgtext))"
  have c1: "\<exists>r. parse_cmd uname msgtext = Inr r" by (rule parse_cmd_returns)
  have c3: "\<not> (\<exists>r. strip msgtext = 0x2F # r) \<longrightarrow> parse_cmd uname msgtext = Inr (None, None)"
    using parse_cmd_no_marker by blast
  have c2: "msgtext = [] \<longrightarrow> parse_cmd uname msgtext = Inr (None, None)"
    using c3 by (auto simp add: strip_def)
  have c4: "?head = [0x2F] \<longrightarrow> parse_cmd uname msgtext = Inr (None, None)"
  proof
    assume h: "?head = [0x2F]"
    then have "0x40 \<notin> set ?head" by simp
    from parse_cmd_plain [OF this, of uname] h show "parse_cmd uname msgtext = Inr (None, None)"
      by simp
  qed
  have c6: "?head = p @ 0x40 # h \<and> 0x40 \<notin> set h \<and> h \<noteq> uname \<longrightarrow>
      parse_cmd uname msgtext = Inr (None, None)"
    using parse_cmd_at [of msgtext p h uname] by simp
  have c5: "?head = 0x2F # 0x40 # a \<and> 0x40 \<notin> set a \<longrightarrow>
      parse_cmd uname msgtext = Inr (None, None)"
    using parse_cmd_at [of msgtext "[0x2F]" a uname] by simp
  from c1 c2 c3 c4 c5 c6 show ?thesis by blast
qed

theorem parse_cmd_total_witness:
  "parse_cmd (U ''pkgbot'') [] = Inr (None, None)
   \<and> \<not> (\<exists>r. strip (U ''hello /x'') = 0x2F # r)
   \<and> parse_cmd (U ''pkgbot'') (U ''hello /x'') = Inr (None, None)
   \<and> takeWhile (\<lambda>c. c \<noteq> 0x20) (replace 0xA0 0x20 (strip (U ''/ x''))) = [0x2F]
   \<and> parse_cmd (U ''pkgbot'') (U ''/ x'') = Inr (None, None)
   \<and> takeWhile (\<lambda>c. c \<noteq> 0x20) (replace 0xA0 0x20 (strip (U ''/@pkgbot''))) = 0x2F # 0x40 # U ''pkgbot''
   \<and> 0x40 \<notin> set (U ''pkgbot'')
   \<and> parse_cmd (U ''pkgbot'') (U ''/@pkgbot'') = Inr (None, None)
   \<and> takeWhile (\<lambda>c. c \<noteq> 0x20) (replace 0xA0 0x20 (strip (U ''/a@b y''))) = U ''/a'' @ 0x40 # U ''b''
   \<and> 0x40 \<notin> set (U ''b'') \<and> U ''b'' \<noteq> U ''pkgbot''
   \<and> parse_cmd (U ''pkgbot'') (U ''/a@b y'') = Inr (None, None)"
  using parse_cmd_total [of "U ''pkgbot''" "[]" "[]" "[]" "[]"]
    parse_cmd_total [of "U ''pkgbot''" "U ''hello /x''" "[]" "[]" "[]"]
    parse_cmd_total [of "U ''pkgbot''" "U ''/ x''" "[]" "[]" "[]"]
    parse_cmd_total [of "U ''pkgbot''" "U ''/@pkgbot''" "U ''pkgbot''" "[]" "[]"]
    parse_cmd_total [of "U ''pkgbot''" "U ''/a@b y''" "[]" "U ''/a''" "U ''b''"]
  by (simp add: U_def strip_def isspace_def replace_def)

section \<open>Properties of bot_api\<close>

lemmas run_defs = serve_def serve_iter_def bot_api_def envelope_def raise_BotAPIFailed_def
  retry_pause_def process_def next_offset_def fetch_params_def post_def sleep_def
  set_offset_def logging_exception_def

lemmas example_defs = client0_def too_many_requests_def success_def update_def quiet_def
  failing_def stopping_def no_callbacks_def on_message_def watch_id_def flaky_def limited_def
  batch_then_limited_def acknowledging_def idle_def stop_request_def two_messages_def
  annotated_def U_def

text \<open>
  A call changes no field of the client but the count of requests, and its effects are
  requests of the method called and sleeps of 2 time units; the first effect is a request.
\<close>

lemma attempts_frame:
  "attempts net m p atts s = (r, s') \<Longrightarrow>
     fst s' = (fst s)\<lparr>posts := posts (fst s')\<rparr> \<and>
     (\<exists>evs. snd s' = snd s @ evs \<and> set evs \<subseteq> {Post m p, Sleep 2})"
proof (induction atts arbitrary: s)
  case Nil
  then show ?case by simp
next
  case (Cons att atts)
  show ?case
  proof (cases "net (posts (fst s))")
    case (Decoded ret)
    with Cons.prems show ?thesis by (auto simp add: post_def)
  next
    case (Fails ex)
    show ?thesis
    proof (cases "is_Exception ex \<and> att < 1")
      case True
      let ?s1 = "sleep 2 ((fst s)\<lparr>posts := Suc (posts (fst s))\<rparr>, snd s @ [Post m p])"
      from True Fails Cons.prems have "attempts net m p atts ?s1 = (r, s')"
        by (simp add: post_def)
      from Cons.IH [OF this] show ?thesis
        by (auto simp add: sleep_def)
    next
      case False
      with Fails Cons.prems show ?thesis by (auto simp add: post_def split: if_splits)
    qed
  qed
qed

lemma bot_api_frame:
  assumes "bot_api net m p s = (r, s')"
  shows "fst s' = (fst s)\<lparr>posts := posts (fst s')\<rparr> \<and>
     (\<exists>evs. snd s' = snd s @ evs \<and> set evs \<subseteq> {Post m p, Sleep 2})"
proof -
  obtain r0 where "attempts net m p [0, 1, 2] s = (r0, s')"
    using assms by (auto simp add: bot_api_def split: prod.splits sum.splits option.splits)
  then show ?thesis by (rule attempts_frame)
qed

lemma bot_api_offset_run:
  assumes "bot_api net m p s = (r, s')"
  shows "offset (fst s') = offset (fst s)" "run (fst s') = run (fst s)"
proof -
  from bot_api_frame [OF assms] have e: "fst s' = (fst s)\<lparr>posts := posts (fst s')\<rparr>" by simp
  show "offset (fst s') = offset (fst s)" by (subst e) simp
  show "run (fst s') = run (fst s)" by (subst e) simp
qed

lemma attempts_posts_first:
  "\<exists>rest. snd (snd (attempts net m p (att # atts) s)) = snd s @ Post m p # rest"
proof (cases "net (posts (fst s))")
  case (Decoded ret)
  then show ?thesis by (simp add: post_def)
next
  case (Fails ex)
  show ?thesis
  proof (cases "is_Exception ex \<and> att < 1")
    case True
    let ?s1 = "sleep 2 ((fst s)\<lparr>posts := Suc (posts (fst s))\<rparr>, snd s @ [Post m p])"
    obtain r s' where a: "attempts net m p atts ?s1 = (r, s')"
      by (cases "attempts net m p atts ?s1")
    from attempts_frame [OF a] obtain evs where "snd s' = snd ?s1 @ evs" by blast
    with True Fails a show ?thesis by (simp add: post_def sleep_def)
  next
    case False
    with Fails show ?thesis by (auto simp add: post_def)
  qed
qed

lemma bot_api_posts_first:
  "\<exists>rest. snd (snd (bot_api net m p s)) = snd s @ Post m p # rest"
proof -
  obtain r0 s' where a: "attempts net m p [0, 1, 2] s = (r0, s')"
    by (cases "attempts net m p [0, 1, 2] s")
  then have "snd (bot_api net m p s) = s'"
    by (auto simp add: bot_api_def split: sum.splits option.splits)
  with attempts_posts_first [of net m p 0 "[1, 2]" s] a show ?thesis by simp
qed

text \<open>
  C3. The code does not make the third attempt. Against a service whose first two
  requests fail and whose third would be answered, \<^verbatim>\<open>bot_api\<close> makes two requests with one
  sleep of 2 time units between them and raises the second exception, unmodified; it
  never sleeps 4 time units. Whatever the service does, no call makes more than two
  requests.
\<close>

theorem bot_api_second_failure_raises:
  "bot_api flaky (U ''getMe'') [] (client0, [])
   = (Inl (TransportError 1),
      (client0\<lparr>posts := 2\<rparr>, [Post (U ''getMe'') [], Sleep 2, Post (U ''getMe'') []]))
   \<and> posts (fst (snd (bot_api net method params s))) \<le> posts (fst s) + 2"
proof
  show "bot_api flaky (U ''getMe'') [] (client0, [])
   = (Inl (TransportError 1),
      (client0\<lparr>posts := 2\<rparr>, [Post (U ''getMe'') [], Sleep 2, Post (U ''getMe'') []]))"
    by (simp add: bot_api_def post_def sleep_def client0_def flaky_def)
  show "posts (fst (snd (bot_api net method params s))) \<le> posts (fst s) + 2"
    by (simp add: bot_api_def post_def sleep_def
        split: reply.splits prod.splits sum.splits option.splits)
qed

section \<open>Properties of serve\<close>

subsection \<open>Callbacks that leave the cursor alone\<close>

lemma dispatch_items_offset:
  "keeps_offset kw \<Longrightarrow> offset (fst (snd (dispatch_items kw kvs s))) = offset (fst s)"
proof (induction kw kvs s rule: dispatch_items.induct)
  case (1 kw s)
  then show ?case by simp
next
  case (2 kw k v kvs s)
  show ?case
  proof (cases "k = U ''update_id''")
    case True
    with 2 show ?thesis by simp
  next
    case False
    show ?thesis
    proof (cases "kw k")
      case None
      with False 2 show ?thesis by simp
    next
      case (Some cb)
      obtain r w' where cb: "cb v (fst s) = (r, w')" by (cases "cb v (fst s)")
      have keep: "offset w' = offset (fst s)"
        using "2.prems" Some cb unfolding keeps_offset_def by (metis snd_conv)
      show ?thesis
      proof (cases r)
        case None
        with False Some cb keep "2.IH"(3) [OF False Some _ _ "2.prems"] show ?thesis
          by simp
      next
        case (Some e)
        with False \<open>kw k = Some cb\<close> cb keep show ?thesis by simp
      qed
    qed
  qed
qed

lemma dispatch_offset:
  "keeps_offset kw \<Longrightarrow> offset (fst (snd (dispatch kw ups s))) = offset (fst s)"
proof (induction ups arbitrary: s)
  case Nil
  then show ?case by simp
next
  case (Cons upd ups)
  show ?case
  proof (cases "items upd")
    case (Inl e)
    then show ?thesis by simp
  next
    case (Inr kvs)
    obtain r s' where d: "dispatch_items kw kvs s = (r, s')" by (cases "dispatch_items kw kvs s")
    have "offset (fst s') = offset (fst s)"
      using dispatch_items_offset [OF Cons.prems, of kvs s] d by simp
    with Inr d Cons.IH [OF Cons.prems, of s'] show ?thesis
      by (cases r) simp_all
  qed
qed


subsection \<open>The effects of an iteration extend the trace\<close>

lemma retry_pause_frame:
  "fst (snd (retry_pause ret s)) = fst s \<and> (\<exists>evs. snd (snd (retry_pause ret s)) = snd s @ evs)"
  by (simp add: retry_pause_def sleep_def split: sum.splits bool.splits)

lemma dispatch_items_grows: "\<exists>evs. snd (snd (dispatch_items kw kvs s)) = snd s @ evs"
proof (induction kw kvs s rule: dispatch_items.induct)
  case (1 kw s)
  then show ?case by simp
next
  case (2 kw k v kvs s)
  show ?case
  proof (cases "k = U ''update_id''")
    case True
    with 2 show ?thesis by simp
  next
    case False
    show ?thesis
    proof (cases "kw k")
      case None
      with False 2 show ?thesis by simp
    next
      case (Some cb)
      obtain r w' where cb: "cb v (fst s) = (r, w')" by (cases "cb v (fst s)")
      show ?thesis
      proof (cases r)
        case None
        with False Some cb "2.IH"(3) [OF False Some _ _] show ?thesis
          by auto
      next
        case (Some e)
        with False \<open>kw k = Some cb\<close> cb show ?thesis by simp
      qed
    qed
  qed
qed

lemma dispatch_grows: "\<exists>evs. snd (snd (dispatch kw ups s)) = snd s @ evs"
proof (induction ups arbitrary: s)
  case Nil
  then show ?case by simp
next
  case (Cons upd ups)
  show ?case
  proof (cases "items upd")
    case (Inl e)
    then show ?thesis by simp
  next
    case (Inr kvs)
    obtain r s' where d: "dispatch_items kw kvs s = (r, s')" by (cases "dispatch_items kw kvs s")
    from dispatch_items_grows [of kw kvs s] d obtain e1 where e1: "snd s' = snd s @ e1" by auto
    from Cons.IH [of s'] obtain e2 where "snd (snd (dispatch kw ups s')) = snd s' @ e2" by auto
    with Inr d e1 show ?thesis
      by (cases r) simp_all
  qed
qed

lemma process_grows: "\<exists>evs. snd (snd (process kw u s)) = snd s @ evs"
proof (cases u)
  case None
  then show ?thesis by (simp add: process_def)
next
  case (Some ups)
  show ?thesis
  proof (cases "truthy ups")
    case False
    with Some show ?thesis by (simp add: process_def)
  next
    case True
    show ?thesis
    proof (cases "next_offset ups")
      case (Inl e)
      with Some True show ?thesis by (simp add: process_def)
    next
      case (Inr n)
      show ?thesis
      proof (cases "iterate ups")
        case (Inl e)
        with Some True Inr show ?thesis by (simp add: process_def set_offset_def)
      next
        case us: (Inr us)
        obtain r s' where d: "dispatch kw us (set_offset n s) = (r, s')"
          by (cases "dispatch kw us (set_offset n s)")
        from dispatch_grows [of kw us "set_offset n s"] d
        obtain evs where "snd s' = snd s @ evs" by (auto simp add: set_offset_def)
        with Some True Inr us d show ?thesis
          by (cases r) (simp_all add: process_def sleep_def)
      qed
    qed
  qed
qed

lemma serve_iter_posts_first:
  "\<exists>rest. snd (snd (snd (serve_iter net kw u s)))
     = snd s @ Post (U ''getUpdates'') (fetch_params (fst s)) # rest"
proof -
  let ?m = "U ''getUpdates''" and ?p = "fetch_params (fst s)"
  obtain r s1 where b: "bot_api net ?m ?p s = (r, s1)" by (cases "bot_api net ?m ?p s")
  from bot_api_posts_first [of net ?m ?p s] b
  obtain r1 where s1: "snd s1 = snd s @ Post ?m ?p # r1" by auto
  show ?thesis
  proof (cases r)
    case (Inr ups)
    obtain q s2 where p: "process kw (Some ups) s1 = (q, s2)" by (cases "process kw (Some ups) s1")
    from process_grows [of kw "Some ups" s1] p obtain evs where "snd s2 = snd s1 @ evs" by auto
    with Inr b p s1 show ?thesis by (simp add: serve_iter_def)
  next
    case (Inl ex)
    show ?thesis
    proof (cases "\<exists>ret. ex = BotAPIFailed ret")
      case True
      then obtain ret where ex: "ex = BotAPIFailed ret" by blast
      obtain q s2 where rp: "retry_pause ret s1 = (q, s2)" by (cases "retry_pause ret s1")
      from retry_pause_frame [of ret s1] rp obtain e1 where e1: "snd s2 = snd s1 @ e1" by auto
      obtain q' s3 where p: "process kw u s2 = (q', s3)" by (cases "process kw u s2")
      from process_grows [of kw u s2] p obtain e2 where "snd s3 = snd s2 @ e2" by auto
      with Inl ex b rp p s1 e1 show ?thesis
        by (cases q) (simp_all add: serve_iter_def)
    next
      case False
      with Inl b s1 show ?thesis
        by (cases ex) (simp_all add: serve_iter_def logging_exception_def)
    qed
  qed
qed

lemma serve_loop_grows: "\<exists>evs. snd (snd (serve_loop net kw fuel u s)) = snd s @ evs"
proof (induction fuel arbitrary: u s)
  case 0
  then show ?case by simp
next
  case (Suc fuel)
  show ?case
  proof (cases "run (fst s)")
    case False
    then show ?thesis by simp
  next
    case True
    obtain r u' s' where it: "serve_iter net kw u s = (r, u', s')"
      by (cases "serve_iter net kw u s")
    from serve_iter_posts_first [of net kw u s] it obtain e1 where e1: "snd s' = snd s @ e1"
      by auto
    from Suc.IH [of u' s'] obtain e2 where "snd (snd (serve_loop net kw fuel u' s')) = snd s' @ e2"
      by auto
    with True it e1 show ?thesis by (cases r) simp_all
  qed
qed

lemma serve_loop_posts_first:
  assumes "run (fst s)"
  shows "\<exists>rest. snd (snd (serve_loop net kw (Suc fuel) u s))
     = snd s @ Post (U ''getUpdates'') (fetch_params (fst s)) # rest"
proof -
  obtain r u' s' where it: "serve_iter net kw u s = (r, u', s')"
    by (cases "serve_iter net kw u s")
  from serve_iter_posts_first [of net kw u s] it
  obtain e1 where e1: "snd s' = snd s @ Post (U ''getUpdates'') (fetch_params (fst s)) # e1"
    by auto
  from serve_loop_grows [of net kw fuel u' s']
  obtain e2 where "snd (snd (serve_loop net kw fuel u' s')) = snd s' @ e2" by auto
  with assms it e1 show ?thesis by (cases r) simp_all
qed

subsection \<open>Dispatch, update by update\<close>

lemma dispatch_items_skip:
  "\<forall>k \<in> set (map fst kvs). kw k = None \<Longrightarrow> dispatch_items kw kvs s = (None, s)"
  by (induction kw kvs s rule: dispatch_items.induct) auto

lemma dispatch_items_append:
  "dispatch_items kw kvs1 s = (None, s') \<Longrightarrow>
     dispatch_items kw (kvs1 @ kvs) s = dispatch_items kw kvs s'"
proof (induction kw kvs1 s rule: dispatch_items.induct)
  case (1 kw s)
  then show ?case by simp
next
  case (2 kw k v kvs1 s)
  show ?case
  proof (cases "k = U ''update_id''")
    case True
    with 2 show ?thesis by simp
  next
    case False
    show ?thesis
    proof (cases "kw k")
      case None
      with False 2 show ?thesis by simp
    next
      case (Some cb)
      obtain r w' where cb: "cb v (fst s) = (r, w')" by (cases "cb v (fst s)")
      show ?thesis
      proof (cases r)
        case None
        with False Some cb "2.prems" "2.IH"(3) [OF False Some _ _] show ?thesis
          by simp
      next
        case (Some e)
        with False \<open>kw k = Some cb\<close> cb "2.prems" show ?thesis by simp
      qed
    qed
  qed
qed

lemma dispatch_append:
  "dispatch kw ups1 s = (None, s') \<Longrightarrow> dispatch kw (ups1 @ ups) s = dispatch kw ups s'"
proof (induction ups1 arbitrary: s)
  case Nil
  then show ?case by simp
next
  case (Cons upd ups1)
  show ?case
  proof (cases "items upd")
    case (Inl e)
    with Cons.prems show ?thesis by simp
  next
    case (Inr kvs)
    obtain r s0 where d: "dispatch_items kw kvs s = (r, s0)" by (cases "dispatch_items kw kvs s")
    show ?thesis
    proof (cases r)
      case None
      with Inr d Cons.prems Cons.IH [of s0] show ?thesis by simp
    next
      case (Some e)
      with Inr d Cons.prems show ?thesis by simp
    qed
  qed
qed

subsection \<open>The three ways a fetch can end\<close>

lemma serve_iter_fetched:
  "bot_api net (U ''getUpdates'') (fetch_params (fst s)) s = (Inr ups, s1) \<Longrightarrow>
     serve_iter net kw u s = (fst (process kw (Some ups) s1), Some ups, snd (process kw (Some ups) s1))"
  by (simp add: serve_iter_def split: prod.splits)



subsection \<open>An empty batch\<close>

text \<open>
  C9. In an iteration whose fetch returns the empty batch, the iteration ends right
  after the fetch: the cursor and the run-state are those before the iteration, the only
  effects are those of the fetch itself (requests of \<^verbatim>\<open>getUpdates\<close> and the 2-unit sleep of
  its retry), so no callback is invoked and there is no pause of 0.2 time units; and the
  loop, if it is running, goes on from that very state: its next effect is the request
  of the next fetch.
\<close>

theorem empty_batch_continues:
  assumes "bot_api net (U ''getUpdates'') (fetch_params (fst s)) s = (Inr (JList []), s1)"
  shows "serve_iter net kw updates s = (None, Some (JList []), s1)
    \<and> offset (fst s1) = offset (fst s) \<and> run (fst s1) = run (fst s)
    \<and> (\<exists>evs. snd s1 = snd s @ evs
          \<and> set evs \<subseteq> {Post (U ''getUpdates'') (fetch_params (fst s)), Sleep 2}
          \<and> Sleep (1 / 5) \<notin> set evs \<and> (\<forall>k v. Invoke k v \<notin> set evs))
    \<and> (if run (fst s)
        then serve_loop net kw (Suc fuel) updates s = serve_loop net kw fuel (Some (JList [])) s1
          \<and> (\<exists>rest. snd (snd (serve_loop net kw (Suc (Suc fuel)) updates s))
                 = snd s1 @ Post (U ''getUpdates'') (fetch_params (fst s1)) # rest)
        else serve_loop net kw (Suc fuel) updates s = (Returned, s))"
proof -
  have it: "serve_iter net kw updates s = (None, Some (JList []), s1)"
    using assms by (simp add: serve_iter_def process_def)
  from bot_api_frame [OF assms]
  obtain evs where evs: "snd s1 = snd s @ evs"
      "set evs \<subseteq> {Post (U ''getUpdates'') (fetch_params (fst s)), Sleep 2}"
    by blast
  from evs(2) have "Sleep (1 / 5) \<notin> set evs" "\<forall>k v. Invoke k v \<notin> set evs"
    by auto
  with evs have tr: "\<exists>evs. snd s1 = snd s @ evs
          \<and> set evs \<subseteq> {Post (U ''getUpdates'') (fetch_params (fst s)), Sleep 2}
          \<and> Sleep (1 / 5) \<notin> set evs \<and> (\<forall>k v. Invoke k v \<notin> set evs)"
    by blast
  note keep = bot_api_offset_run [OF assms]
  have nxt: "\<exists>rest. snd (snd (serve_loop net kw (Suc (Suc fuel)) updates s))
                 = snd s1 @ Post (U ''getUpdates'') (fetch_params (fst s1)) # rest"
    if r: "run (fst s)"
  proof -
    from r keep(2) have "run (fst s1)" by simp
    from serve_loop_posts_first [OF this, of net kw fuel "Some (JList [])"] it r
    show ?thesis by simp
  qed
  from it tr keep nxt show ?thesis by simp
qed

theorem empty_batch_continues_witness:
  "bot_api idle (U ''getUpdates'')
      (fetch_params (fst (client0\<lparr>offset := Some 6\<rparr>, []))) (client0\<lparr>offset := Some 6\<rparr>, [])
     = (Inr (JList []),
        (client0\<lparr>offset := Some 6, posts := 1\<rparr>,
         [Post (U ''getUpdates'') [(U ''offset'', JInt 6), (U ''timeout'', JInt 30)]]))
   \<and> serve_iter idle (on_message quiet)
        (Some (JList [update 5 (U ''message'') JNull])) (client0\<lparr>offset := Some 6\<rparr>, [])
     = (None, Some (JList []),
        (client0\<lparr>offset := Some 6, posts := 1\<rparr>,
         [Post (U ''getUpdates'') [(U ''offset'', JInt 6), (U ''timeout'', JInt 30)]]))"
proof -
  let ?s = "(client0\<lparr>offset := Some 6\<rparr>, [])"
  let ?s1 = "(client0\<lparr>offset := Some 6, posts := 1\<rparr>,
         [Post (U ''getUpdates'') [(U ''offset'', JInt 6), (U ''timeout'', JInt 30)]])"
  have f: "bot_api idle (U ''getUpdates'') (fetch_params (fst ?s)) ?s = (Inr (JList []), ?s1)"
    by (simp add: run_defs example_defs)
  from empty_batch_continues [OF f, of "on_message quiet"
      "Some (JList [update 5 (U ''message'') JNull])" 0] f
  show ?thesis by simp
qed

subsection \<open>A batch of two messages\<close>

text \<open>
  C8. Let the fetch return the batch of an update 5 with message \<open>m1\<close> and an update 7
  with message \<open>m2\<close>, each possibly with further fields of kinds that have no callback,
  and let a callback be registered for \<^verbatim>\<open>message\<close> that returns on both messages. Then the
  iteration sets the cursor to 8 before the first invocation, invokes the callback on
  \<open>m1\<close> and then, from the world the first invocation left, on \<open>m2\<close>, invokes nothing
  else (whatever is registered for \<^verbatim>\<open>update_id\<close>), and pauses 0.2 time units.
\<close>

theorem two_messages_in_order:
  assumes fetch: "bot_api net (U ''getUpdates'') (fetch_params (fst s)) s
      = (Inr (JList [JDict ((U ''update_id'', JInt 5) # (U ''message'', m1) # more1),
                     JDict ((U ''update_id'', JInt 7) # (U ''message'', m2) # more2)]), s1)"
    and reg: "kw (U ''message'') = Some cb"
    and unreg: "\<forall>k \<in> set (map fst (more1 @ more2)). kw k = None"
    and cb1: "cb m1 ((fst s1)\<lparr>offset := Some 8\<rparr>) = (None, w2)"
    and cb2: "cb m2 w2 = (None, w3)"
  shows "serve_iter net kw updates s
    = (None,
       Some (JList [JDict ((U ''update_id'', JInt 5) # (U ''message'', m1) # more1),
                    JDict ((U ''update_id'', JInt 7) # (U ''message'', m2) # more2)]),
       (w3, snd s1 @ [Invoke (U ''message'') m1, Invoke (U ''message'') m2, Sleep (1 / 5)]))"
proof -
  let ?ups = "[JDict ((U ''update_id'', JInt 5) # (U ''message'', m1) # more1),
               JDict ((U ''update_id'', JInt 7) # (U ''message'', m2) # more2)]"
  have u: "U ''message'' \<noteq> U ''update_id''" by (simp add: U_def)
  have n: "next_offset (JList ?ups) = Inr 8"
    by (simp add: next_offset_def)
  have sk1: "\<And>st. dispatch_items kw more1 st = (None, st)"
    using unreg by (intro dispatch_items_skip) simp
  have sk2: "\<And>st. dispatch_items kw more2 st = (None, st)"
    using unreg by (intro dispatch_items_skip) simp
  have d: "dispatch kw ?ups (set_offset 8 s1)
    = (None, (w3, snd s1 @ [Invoke (U ''message'') m1, Invoke (U ''message'') m2]))"
    using u reg cb1 cb2 by (simp add: set_offset_def sk1 sk2)
  have "process kw (Some (JList ?ups)) s1
    = (None, (w3, snd s1 @ [Invoke (U ''message'') m1, Invoke (U ''message'') m2, Sleep (1 / 5)]))"
    unfolding process_def using n d by (simp add: sleep_def)
  with serve_iter_fetched [OF fetch, of kw updates] show ?thesis by simp
qed

theorem two_messages_in_order_witness:
  "bot_api annotated (U ''getUpdates'') (fetch_params (fst (client0, []))) (client0, [])
     = (Inr (JList [JDict ((U ''update_id'', JInt 5) # (U ''message'', JStr (U ''one''))
                           # [(U ''edited_message'', JNull)]),
                    JDict ((U ''update_id'', JInt 7) # (U ''message'', JStr (U ''two'')) # [])]),
        (client0\<lparr>posts := 1\<rparr>,
         [Post (U ''getUpdates'') [(U ''offset'', JNull), (U ''timeout'', JInt 30)]]))
   \<and> watch_id (U ''message'') = Some quiet
   \<and> watch_id (U ''update_id'') = Some failing
   \<and> watch_id (U ''edited_message'') = None
   \<and> quiet (JStr (U ''one'')) ((fst (client0\<lparr>posts := 1\<rparr>, []))\<lparr>offset := Some 8\<rparr>)
       = (None, client0\<lparr>offset := Some 8, posts := 1\<rparr>)
   \<and> quiet (JStr (U ''two'')) (client0\<lparr>offset := Some 8, posts := 1\<rparr>)
       = (None, client0\<lparr>offset := Some 8, posts := 1\<rparr>)
   \<and> serve_iter annotated watch_id None (client0, [])
     = (None,
        Some (JList [JDict [(U ''update_id'', JInt 5), (U ''message'', JStr (U ''one'')),
                            (U ''edited_message'', JNull)],
                     JDict [(U ''update_id'', JInt 7), (U ''message'', JStr (U ''two''))]]),
        (client0\<lparr>offset := Some 8, posts := 1\<rparr>,
         [Post (U ''getUpdates'') [(U ''offset'', JNull), (U ''timeout'', JInt 30)],
          Invoke (U ''message'') (JStr (U ''one'')), Invoke (U ''message'') (JStr (U ''two'')),
          Sleep (1 / 5)]))"
proof -
  let ?s1 = "(client0\<lparr>posts := 1\<rparr>,
         [Post (U ''getUpdates'') [(U ''offset'', JNull), (U ''timeout'', JInt 30)]])"
  let ?w = "client0\<lparr>offset := Some 8, posts := 1\<rparr>"
  have f: "bot_api annotated (U ''getUpdates'') (fetch_params (fst (client0, []))) (client0, [])
     = (Inr (JList [JDict ((U ''update_id'', JInt 5) # (U ''message'', JStr (U ''one''))
                           # [(U ''edited_message'', JNull)]),
                    JDict ((U ''update_id'', JInt 7) # (U ''message'', JStr (U ''two'')) # [])]),
        ?s1)"
    by (simp add: run_defs example_defs)
  have reg: "watch_id (U ''message'') = Some quiet" by (simp add: watch_id_def)
  have rid: "watch_id (U ''update_id'') = Some failing" by (simp add: watch_id_def U_def)
  have unreg: "\<forall>k \<in> set (map fst ([(U ''edited_message'', JNull)] @ [])). watch_id k = None"
    by (simp add: watch_id_def U_def)
  have cb1: "quiet (JStr (U ''one'')) ((fst ?s1)\<lparr>offset := Some 8\<rparr>) = (None, ?w)"
    by (simp add: quiet_def client0_def)
  have cb2: "quiet (JStr (U ''two'')) ?w = (None, ?w)"
    by (simp add: quiet_def)
  have em: "watch_id (U ''edited_message'') = None"
    by (simp add: watch_id_def U_def)
  from two_messages_in_order [OF f reg unreg cb1 cb2, of None] f reg rid em cb1 cb2
  show ?thesis by simp
qed

subsection \<open>A callback that raises\<close>

text \<open>
  C10. Let the loop be running, let the fetch return a batch whose last update has
  identifier \<open>i\<close>, and let the callback registered for a field \<open>k\<close> of one of its updates
  raise \<open>e\<close>, everything dispatched before having returned. Then \<^verbatim>\<open>serve\<close> ends with the
  exception \<open>e\<close>, in the state the raising callback left: the later fields and updates of
  the batch are not dispatched. No callback assigning the cursor, the cursor is \<open>i + 1\<close>
  in that state, and a later \<^verbatim>\<open>serve\<close> on it starts by requesting the updates from
  \<open>i + 1\<close> on, so that the service does not deliver the batch again.
\<close>

theorem callback_exception_leaves_serve:
  assumes run: "run (fst s)"
    and fetch: "bot_api net (U ''getUpdates'') (fetch_params (fst s)) s
                  = (Inr (JList (ups1 @ JDict (kvs1 @ (k, v) # kvs2) # ups2)), s1)"
    and lastid: "getitem (last (JDict (kvs1 @ (k, v) # kvs2) # ups2)) (U ''update_id'')
                  = Inr (JInt i)"
    and before: "dispatch kw ups1 (set_offset (i + 1) s1) = (None, s2)"
                "dispatch_items kw kvs1 s2 = (None, s3)"
    and cb: "k \<noteq> U ''update_id''" "kw k = Some cb" "cb v (fst s3) = (Some e, w')"
    and keeps: "keeps_offset kw"
  shows "serve_loop net kw (Suc fuel) updates s = (Raised e, (w', snd s3 @ [Invoke k v]))
    \<and> offset w' = Some (i + 1)
    \<and> (run w' \<longrightarrow>
         (\<exists>rest. snd (snd (serve net' kw' (Suc fuel') (w', snd s3 @ [Invoke k v])))
            = (snd s3 @ [Invoke k v])
              @ Post (U ''getUpdates'') [(U ''offset'', JInt (i + 1)), (U ''timeout'', JInt 30)]
              # rest))"
proof -
  let ?ups = "ups1 @ JDict (kvs1 @ (k, v) # kvs2) # ups2"
  let ?fin = "(w', snd s3 @ [Invoke k v])"
  have n: "next_offset (JList ?ups) = Inr (i + 1)"
    using lastid by (simp add: next_offset_def)
  have "dispatch_items kw (kvs1 @ (k, v) # kvs2) s2 = (Some e, ?fin)"
    using dispatch_items_append [OF before(2)] cb by simp
  then have "dispatch kw (JDict (kvs1 @ (k, v) # kvs2) # ups2) s2 = (Some e, ?fin)"
    by simp
  then have d: "dispatch kw ?ups (set_offset (i + 1) s1) = (Some e, ?fin)"
    using dispatch_append [OF before(1)] by simp
  have "process kw (Some (JList ?ups)) s1 = (Some e, ?fin)"
    unfolding process_def using n d by simp
  with fetch have "serve_iter net kw updates s = (Some e, Some (JList ?ups), ?fin)"
    by (simp add: serve_iter_def)
  with run have c1: "serve_loop net kw (Suc fuel) updates s = (Raised e, ?fin)"
    by simp
  have "offset (fst s2) = Some (i + 1)"
    using dispatch_offset [OF keeps, of ups1 "set_offset (i + 1) s1"] before(1)
    by (simp add: set_offset_def)
  then have "offset (fst s3) = Some (i + 1)"
    using dispatch_items_offset [OF keeps, of kvs1 s2] before(2) by simp
  moreover have "offset w' = offset (fst s3)"
    using keeps cb(2,3) unfolding keeps_offset_def by (metis snd_conv)
  ultimately have c2: "offset w' = Some (i + 1)" by simp
  have c3: "run w' \<longrightarrow>
         (\<exists>rest. snd (snd (serve net' kw' (Suc fuel') ?fin))
            = (snd s3 @ [Invoke k v])
              @ Post (U ''getUpdates'') [(U ''offset'', JInt (i + 1)), (U ''timeout'', JInt 30)]
              # rest)"
  proof
    assume "run w'"
    then have "run (fst ?fin)" by simp
    from serve_loop_posts_first [OF this, of net' kw' fuel' None] c2
    show "\<exists>rest. snd (snd (serve net' kw' (Suc fuel') ?fin))
            = (snd s3 @ [Invoke k v])
              @ Post (U ''getUpdates'') [(U ''offset'', JInt (i + 1)), (U ''timeout'', JInt 30)]
              # rest"
      by (simp add: serve_def fetch_params_def)
  qed
  from c1 c2 c3 show ?thesis by blast
qed

theorem callback_exception_leaves_serve_witness:
  "run (fst (client0, []))
   \<and> keeps_offset (on_message failing)
   \<and> bot_api two_messages (U ''getUpdates'') (fetch_params (fst (client0, []))) (client0, [])
       = (Inr (JList ([] @ JDict ([(U ''update_id'', JInt 5)] @ (U ''message'', JStr (U ''one'')) # [])
                      # [update 7 (U ''message'') (JStr (U ''two''))])),
          (client0\<lparr>posts := 1\<rparr>,
           [Post (U ''getUpdates'') [(U ''offset'', JNull), (U ''timeout'', JInt 30)]]))
   \<and> on_message failing (U ''message'') = Some failing
   \<and> failing (JStr (U ''one'')) (client0\<lparr>offset := Some 8, posts := 1\<rparr>)
       = (Some (HandlerError 0), client0\<lparr>offset := Some 8, posts := 1\<rparr>)
   \<and> serve_loop two_messages (on_message failing) (Suc 3) None (client0, [])
       = (Raised (HandlerError 0),
          (client0\<lparr>offset := Some 8, posts := 1\<rparr>,
           [Post (U ''getUpdates'') [(U ''offset'', JNull), (U ''timeout'', JInt 30)],
            Invoke (U ''message'') (JStr (U ''one''))]))"
proof -
  let ?s1 = "(client0\<lparr>posts := 1\<rparr>,
           [Post (U ''getUpdates'') [(U ''offset'', JNull), (U ''timeout'', JInt 30)]])"
  let ?w = "client0\<lparr>offset := Some 8, posts := 1\<rparr>"
  let ?s2 = "(?w, [Post (U ''getUpdates'') [(U ''offset'', JNull), (U ''timeout'', JInt 30)]])"
  have r: "run (fst (client0, []))" by (simp add: client0_def)
  have k: "keeps_offset (on_message failing)"
    by (simp add: keeps_offset_def on_message_def failing_def)
  have f: "bot_api two_messages (U ''getUpdates'') (fetch_params (fst (client0, []))) (client0, [])
       = (Inr (JList ([] @ JDict ([(U ''update_id'', JInt 5)] @ (U ''message'', JStr (U ''one'')) # [])
                      # [update 7 (U ''message'') (JStr (U ''two''))])), ?s1)"
    by (simp add: run_defs example_defs)
  have l: "getitem (last (JDict ([(U ''update_id'', JInt 5)] @ (U ''message'', JStr (U ''one'')) # [])
                      # [update 7 (U ''message'') (JStr (U ''two''))])) (U ''update_id'')
       = Inr (JInt 7)"
    by (simp add: update_def)
  have b1: "dispatch (on_message failing) [] (set_offset (7 + 1) ?s1) = (None, ?s2)"
    by (simp add: set_offset_def client0_def)
  have b2: "dispatch_items (on_message failing) [(U ''update_id'', JInt 5)] ?s2 = (None, ?s2)"
    by simp
  have c1: "U ''message'' \<noteq> U ''update_id''" by (simp add: U_def)
  have c2: "on_message failing (U ''message'') = Some failing" by (simp add: on_message_def)
  have c3: "failing (JStr (U ''one'')) (fst ?s2) = (Some (HandlerError 0), ?w)"
    by (simp add: failing_def)
  from callback_exception_leaves_serve [OF r f l b1 b2 c1 c2 c3 k, of 3 None]
    r k f c2 c3
  show ?thesis by simp
qed

subsection \<open>A rate-limited fetch\<close>

text \<open>
  C1. What the code does on a Remote Call error with the hint to retry after 5: it
  sleeps 5 time units and then goes on with the rest of the loop body, since the
  \<^verbatim>\<open>except BotAPIFailed\<close> branch has no \<^verbatim>\<open>continue\<close>. In the first iteration \<^verbatim>\<open>updates\<close> is
  unbound there and \<^verbatim>\<open>serve\<close> ends with \<^verbatim>\<open>UnboundLocalError\<close>. After an iteration that
  fetched a batch, the failed iteration dispatches that batch once more and pauses.
\<close>

theorem serve_rate_limit_falls_through:
  "serve limited no_callbacks (Suc 0) (client0, [])
   = (Raised UnboundLocalError,
      (client0\<lparr>posts := 1\<rparr>,
       [Post (U ''getUpdates'') [(U ''offset'', JNull), (U ''timeout'', JInt 30)], Sleep 5]))
   \<and> serve batch_then_limited (on_message quiet) (Suc (Suc 0)) (client0, [])
   = (Running,
      (client0\<lparr>offset := Some 6, posts := 2\<rparr>,
       [Post (U ''getUpdates'') [(U ''offset'', JNull), (U ''timeout'', JInt 30)],
        Invoke (U ''message'') (JStr (U ''hi'')),
        Sleep (1 / 5),
        Post (U ''getUpdates'') [(U ''offset'', JInt 6), (U ''timeout'', JInt 30)],
        Sleep 5,
        Invoke (U ''message'') (JStr (U ''hi'')),
        Sleep (1 / 5)]))"
  by (simp add: run_defs example_defs)

subsection \<open>The cursor\<close>







subsection \<open>Stopping\<close>

text \<open>
  The class defines no \<^verbatim>\<open>requestStop\<close>, so \<^verbatim>\<open>client.requestStop()\<close> is answered by
  \<^verbatim>\<open>__getattr__\<close>: it posts a remote call of that name and leaves the run-state true.
\<close>

theorem requestStop_is_a_remote_call:
  "getattr_call acknowledging (U ''requestStop'') [] (client0, [])
   = (Inr (JBool True), (client0\<lparr>posts := 1\<rparr>, [Post (U ''requestStop'') []]))
   \<and> run (client0\<lparr>posts := 1\<rparr>)"
  by (simp add: getattr_call_def run_defs example_defs)

text \<open>
  C4, as amended. A call of a method that the class does not define, \<^verbatim>\<open>requestStop\<close>
  among them, performs a remote call and leaves the run-state as it is; the run-state is
  the attribute \<^verbatim>\<open>run\<close>, which a collaborator assigns. Once it is false, \<^verbatim>\<open>serve\<close> returns
  at the next test of its loop, without any effect: when it becomes false during an
  iteration, that iteration is completed and then \<^verbatim>\<open>serve\<close> returns.
\<close>

theorem run_state_ends_serve:
  "(\<exists>rest. snd (snd (getattr_call net name params s)) = snd s @ Post name params # rest)
   \<and> run (fst (snd (getattr_call net name params s))) = run (fst s)
   \<and> (\<not> run (fst s) \<longrightarrow> serve_loop net kw fuel updates s = (Returned, s))
   \<and> (run (fst s) \<and> serve_iter net kw updates s = (None, updates', s') \<and> \<not> run (fst s')
        \<longrightarrow> serve_loop net kw (Suc fuel) updates s = (Returned, s'))"
proof -
  obtain r s1 where b: "bot_api net name params s = (r, s1)" by (cases "bot_api net name params s")
  have c1: "\<exists>rest. snd (snd (getattr_call net name params s)) = snd s @ Post name params # rest"
    using bot_api_posts_first [of net name params s] by (simp add: getattr_call_def)
  have c2: "run (fst (snd (getattr_call net name params s))) = run (fst s)"
    using bot_api_offset_run(2) [OF b] b by (simp add: getattr_call_def)
  have c3: "\<not> run (fst s) \<longrightarrow> serve_loop net kw fuel updates s = (Returned, s)"
    by (cases fuel) simp_all
  have c4: "run (fst s) \<and> serve_iter net kw updates s = (None, updates', s') \<and> \<not> run (fst s')
        \<longrightarrow> serve_loop net kw (Suc fuel) updates s = (Returned, s')"
    by (cases fuel) simp_all
  from c1 c2 c3 c4 show ?thesis by blast
qed

theorem run_state_ends_serve_witness:
  "run (fst (client0, []))
   \<and> serve_iter stop_request
        (on_message stopping) None (client0, [])
      = (None, Some (JList [update 5 (U ''message'') (JStr (U ''stop''))]),
         (client0\<lparr>offset := Some 6, run := False, posts := 1\<rparr>,
          [Post (U ''getUpdates'') [(U ''offset'', JNull), (U ''timeout'', JInt 30)],
           Invoke (U ''message'') (JStr (U ''stop'')), Sleep (1 / 5)]))
   \<and> \<not> run (client0\<lparr>offset := Some 6, run := False, posts := 1\<rparr>)
   \<and> serve_loop stop_request
        (on_message stopping) (Suc 7) None (client0, [])
      = (Returned,
         (client0\<lparr>offset := Some 6, run := False, posts := 1\<rparr>,
          [Post (U ''getUpdates'') [(U ''offset'', JNull), (U ''timeout'', JInt 30)],
           Invoke (U ''message'') (JStr (U ''stop'')), Sleep (1 / 5)]))"
proof -
  let ?s' = "(client0\<lparr>offset := Some 6, run := False, posts := 1\<rparr>,
          [Post (U ''getUpdates'') [(U ''offset'', JNull), (U ''timeout'', JInt 30)],
           Invoke (U ''message'') (JStr (U ''stop'')), Sleep (1 / 5)])"
  have r: "run (fst (client0, []))" by (simp add: client0_def)
  have it: "serve_iter stop_request (on_message stopping) None (client0, [])
      = (None, Some (JList [update 5 (U ''message'') (JStr (U ''stop''))]), ?s')"
    by (simp add: run_defs example_defs)
  have nr: "\<not> run (fst ?s')" by simp
  from run_state_ends_serve [of stop_request "[]" "[]" "(client0, [])" "on_message stopping" 7 None
      "Some (JList [update 5 (U ''message'') (JStr (U ''stop''))])" ?s'] r it nr
  show ?thesis by simp
qed

end
